theory Spec2Isabelle
  imports Complex_Main
begin

section \<open>Values of the program\<close>

text \<open>
  The program is \<^verbatim>\<open>app.py\<close>: a formatter of timed lyrics
  (\<^verbatim>\<open>generate_lrc_content\<close>), a parser of the same format (\<^verbatim>\<open>parse_lrc\<close>), the
  upload loop that fills the playlist, and the body of the polling loop that picks the
  active lyric line and the progress fraction.

  A Python \<^verbatim>\<open>str\<close> is modelled as \<^typ>\<open>string\<close>; a \<^typ>\<open>char\<close> stands for the code point
  of the same number, so the strings of the model are those over the code points 0 to 255.
  A finite Python \<^verbatim>\<open>float\<close> is a binary rational and is modelled as a \<^typ>\<open>rat\<close>;
  arithmetic on it is exact in the model (no rounding of sums and quotients, no
  infinities, no NaN).
\<close>

datatype error = ValueError | ZeroDivisionError

text \<open>A transcript segment: the keys \<^verbatim>\<open>"start"\<close> and \<^verbatim>\<open>"text"\<close> of the provider's dict.\<close>

record segment =
  start :: rat
  seg_text :: string

subsection \<open>Character classes\<close>

definition LF :: char where "LF = CHR 0x0A"
definition CR :: char where "CR = CHR 0x0D"

text \<open>\<^verbatim>\<open>str.isspace\<close> on the code points below 256: TAB, LF, VT, FF, CR, the separators
  FS, GS, RS, US, the space, NEL (0x85) and the no-break space (0xA0).\<close>

definition is_space :: "char \<Rightarrow> bool" where
  "is_space c = (c \<in> set [CHR 0x09, CHR 0x0A, CHR 0x0B, CHR 0x0C, CHR 0x0D,
                            CHR 0x1C, CHR 0x1D, CHR 0x1E, CHR 0x1F, CHR 0x20,
                            CHR 0x85, CHR 0xA0])"

text \<open>The line boundaries of \<^verbatim>\<open>str.splitlines\<close> on the code points below 256:
  LF, VT, FF, CR, FS, GS, RS and NEL.\<close>

definition is_linebreak :: "char \<Rightarrow> bool" where
  "is_linebreak c = (c \<in> set [CHR 0x0A, CHR 0x0B, CHR 0x0C, CHR 0x0D,
                                CHR 0x1C, CHR 0x1D, CHR 0x1E, CHR 0x85])"

text \<open>\<^verbatim>\<open>\d\<close> of the \<^verbatim>\<open>re\<close> module on the code points below 256: the ten ASCII digits.\<close>

definition is_digit :: "char \<Rightarrow> bool" where
  "is_digit c = (c \<in> set ''0123456789'')"

definition digit_val :: "char \<Rightarrow> nat" where
  "digit_val c = of_char c - 48"

definition digit_char :: "nat \<Rightarrow> char" where
  "digit_char d = ''0123456789'' ! d"

subsection \<open>String operations of the language\<close>

text \<open>\<^verbatim>\<open>str.strip()\<close>: drop the white space at both ends.\<close>

definition strip :: "string \<Rightarrow> string" where
  "strip s = rev (dropWhile is_space (rev (dropWhile is_space s)))"

text \<open>\<^verbatim>\<open>"\n".join(lines)\<close>.\<close>

fun join_nl :: "string list \<Rightarrow> string" where
  "join_nl [] = []"
| "join_nl [l] = l"
| "join_nl (l # m # ls) = l @ LF # join_nl (m # ls)"

text \<open>The decimal digits of a natural number, most significant first.\<close>

fun show_nat :: "nat \<Rightarrow> string" where
  "show_nat n = (if n < 10 then [digit_char n] else show_nat (n div 10) @ [digit_char (n mod 10)])"

declare show_nat.simps [simp del]

text \<open>Zero padding on the left up to a width; longer strings are left as they are.\<close>

definition zfill :: "nat \<Rightarrow> string \<Rightarrow> string" where
  "zfill w s = replicate (w - length s) (CHR ''0'') @ s"

text \<open>The format \<^verbatim>\<open>:02d\<close> of an integer: the padding is sign-aware, the sign counts
  in the width.\<close>

definition format_02d :: "int \<Rightarrow> string" where
  "format_02d i = (if i < 0 then CHR ''-'' # zfill 1 (show_nat (nat (- i)))
                   else zfill 2 (show_nat (nat i)))"

text \<open>Rounding to the nearest integer, a tie going to the even neighbour: the rounding
  of the \<^verbatim>\<open>f\<close> presentation type, which is correct on the exact value of the float.\<close>

definition round_half_even :: "rat \<Rightarrow> int" where
  "round_half_even x =
     (let f = \<lfloor>x\<rfloor>; d = x - of_int f
      in if d < 1 / 2 then f else if 1 / 2 < d then f + 1
         else if even f then f else f + 1)"

text \<open>The number of hundredths that \<^verbatim>\<open>.2f\<close> prints for a non-negative value.\<close>

definition centis :: "rat \<Rightarrow> nat" where
  "centis x = nat (round_half_even (\<bar>x\<bar> * 100))"

text \<open>The format \<^verbatim>\<open>:05.2f\<close> of a float: two decimals, sign-aware zero padding to
  five characters.\<close>

definition format_05_2f :: "rat \<Rightarrow> string" where
  "format_05_2f x =
     (let c = centis x;
          body = show_nat (c div 100) @ CHR ''.'' # zfill 2 (show_nat (c mod 100))
      in if x < 0 then CHR ''-'' # zfill 4 body else zfill 5 body)"

text \<open>\<^verbatim>\<open>divmod(x, y)\<close> on floats with a positive divisor: the floored quotient, as a
  float, and the remainder.\<close>

definition py_divmod :: "rat \<Rightarrow> rat \<Rightarrow> rat \<times> rat" where
  "py_divmod x y = (of_int \<lfloor>x / y\<rfloor>, x - y * of_int \<lfloor>x / y\<rfloor>)"

text \<open>\<^verbatim>\<open>int(x)\<close> of a float: truncation toward zero.\<close>

definition int_of_float :: "rat \<Rightarrow> int" where
  "int_of_float x = (if 0 \<le> x then \<lfloor>x\<rfloor> else \<lceil>x\<rceil>)"

section \<open>The formatter\<close>

text \<open>The f-string of \<^verbatim>\<open>generate_lrc_content\<close> for one segment.\<close>

definition lrc_line :: "segment \<Rightarrow> string" where
  "lrc_line seg =
     (let (minutes, seconds) = py_divmod (start seg) 60
      in CHR ''['' # format_02d (int_of_float minutes) @ CHR '':'' # format_05_2f seconds
           @ CHR '']'' # strip (seg_text seg))"

text \<open>The loop of \<^verbatim>\<open>generate_lrc_content\<close>, appending to \<^verbatim>\<open>lrc_lines\<close>.\<close>

fun lrc_lines_loop :: "string list \<Rightarrow> segment list \<Rightarrow> string list" where
  "lrc_lines_loop lrc_lines [] = lrc_lines"
| "lrc_lines_loop lrc_lines (seg # segments) =
     lrc_lines_loop (lrc_lines @ [lrc_line seg]) segments"

definition generate_lrc_content :: "segment list \<Rightarrow> string" where
  "generate_lrc_content segments = join_nl (lrc_lines_loop [] segments)"

section \<open>The parser\<close>

text \<open>\<^verbatim>\<open>str.splitlines()\<close>: scan to the next line boundary, emit the line without it,
  step over the boundary (CR LF is one boundary) and go on; nothing is emitted for what
  follows the last boundary when that is empty.\<close>

function splitlines :: "string \<Rightarrow> string list" where
  "splitlines [] = []"
| "splitlines (c # cs) =
     (let line = takeWhile (\<lambda>x. \<not> is_linebreak x) (c # cs);
          rest = dropWhile (\<lambda>x. \<not> is_linebreak x) (c # cs)
      in line # (case rest of
                   [] \<Rightarrow> []
                 | b # after \<Rightarrow>
                     (case after of
                        [] \<Rightarrow> []
                      | a # after' \<Rightarrow>
                          if b = CR \<and> a = LF then splitlines after' else splitlines after)))"
  by pat_completeness auto

termination
proof (relation "measure length", goal_cases)
  case 1
  show ?case by simp
next
  case (2 c cs line rest b after a after')
  have "length rest \<le> length (c # cs)"
    unfolding 2(2) by (rule length_dropWhile_le)
  moreover have "length rest = Suc (Suc (length after'))"
    unfolding 2(3) 2(4) by simp
  ultimately show ?case by simp
next
  case (3 c cs line rest b after a after')
  have "length rest \<le> length (c # cs)"
    unfolding 3(2) by (rule length_dropWhile_le)
  moreover have "length rest = Suc (length after)"
    unfolding 3(3) by simp
  ultimately show ?case by simp
qed

declare splitlines.simps [simp del]

text \<open>\<^verbatim>\<open>int(minutes)\<close> on a string. Only the strings of decimal digits are modelled
  as accepted; on any other string the model raises, which Python does on fewer strings
  (it also accepts a sign, surrounding white space and underscores).\<close>

definition digits_val :: "string \<Rightarrow> nat" where
  "digits_val ds = foldl (\<lambda>acc d. 10 * acc + digit_val d) 0 ds"

definition py_int :: "string \<Rightarrow> error + int" where
  "py_int s = (if s \<noteq> [] \<and> list_all is_digit s then Inr (int (digits_val s))
               else Inl ValueError)"

text \<open>\<^verbatim>\<open>float(seconds)\<close> on a string. Only digits, a point and digits are modelled as
  accepted, and the value is the exact decimal value (Python takes the nearest float).\<close>

definition py_float :: "string \<Rightarrow> error + rat" where
  "py_float s =
     (let ip = takeWhile (\<lambda>c. c \<noteq> CHR ''.'') s;
          fp = drop 1 (dropWhile (\<lambda>c. c \<noteq> CHR ''.'') s)
      in if ip \<noteq> [] \<and> list_all is_digit ip \<and> fp \<noteq> [] \<and> list_all is_digit fp
            \<and> dropWhile (\<lambda>c. c \<noteq> CHR ''.'') s \<noteq> []
         then Inr (of_nat (digits_val ip) + of_nat (digits_val fp) / 10 ^ length fp)
         else Inl ValueError)"

text \<open>\<^verbatim>\<open>re.match(r"\[(\d{2}):(\d{2}\.\d{2})\](.*)", line)\<close> with its three groups:
  the match is anchored at the start only, and \<^verbatim>\<open>.\<close> matches everything but LF.\<close>

fun lrc_match :: "string \<Rightarrow> (string \<times> string \<times> string) option" where
  "lrc_match (b # m1 # m2 # c # s1 # s2 # d # f1 # f2 # e # rest) =
     (if b = CHR ''['' \<and> is_digit m1 \<and> is_digit m2 \<and> c = CHR '':''
         \<and> is_digit s1 \<and> is_digit s2 \<and> d = CHR ''.'' \<and> is_digit f1 \<and> is_digit f2
         \<and> e = CHR '']''
      then Some ([m1, m2], [s1, s2, d, f1, f2], takeWhile (\<lambda>x. x \<noteq> LF) rest)
      else None)"
| "lrc_match _ = None"

text \<open>The loop of \<^verbatim>\<open>parse_lrc\<close>, appending to \<^verbatim>\<open>lyrics_data\<close>; an exception of
  \<^verbatim>\<open>int\<close> or \<^verbatim>\<open>float\<close> leaves the function.\<close>

fun parse_loop :: "(rat \<times> string) list \<Rightarrow> string list \<Rightarrow> error + (rat \<times> string) list" where
  "parse_loop lyrics_data [] = Inr lyrics_data"
| "parse_loop lyrics_data (line # lines) =
     (case lrc_match line of
        None \<Rightarrow> parse_loop lyrics_data lines
      | Some (minutes, seconds, text) \<Rightarrow>
          (case py_int minutes of
             Inl e \<Rightarrow> Inl e
           | Inr m \<Rightarrow>
               (case py_float seconds of
                  Inl e \<Rightarrow> Inl e
                | Inr s \<Rightarrow>
                    parse_loop (lyrics_data @ [(of_int m * 60 + s, text)]) lines)))"

definition parse_lrc :: "string \<Rightarrow> error + (rat \<times> string) list" where
  "parse_lrc lrc_text = parse_loop [] (splitlines lrc_text)"

section \<open>The body of the polling loop\<close>

text \<open>\<^verbatim>\<open>min(current_playback_time / song["duration"], 1.0)\<close>; the division raises
  on a zero duration.\<close>

definition progress :: "rat \<Rightarrow> rat \<Rightarrow> error + rat" where
  "progress current_playback_time duration =
     (if duration = 0 then Inl ZeroDivisionError
      else Inr (min (current_playback_time / duration) 1))"

text \<open>The scan for the active line: \<^verbatim>\<open>current_lyric\<close> starts empty, takes the text
  of each line whose time has come, and the first line whose time has not come ends the
  scan.\<close>

fun current_lyric_loop :: "string \<Rightarrow> (rat \<times> string) list \<Rightarrow> rat \<Rightarrow> string" where
  "current_lyric_loop current_lyric [] current_playback_time = current_lyric"
| "current_lyric_loop current_lyric ((time_sec, text) # lyrics_data) current_playback_time =
     (if current_playback_time \<ge> time_sec
      then current_lyric_loop text lyrics_data current_playback_time
      else current_lyric)"

definition current_lyric_of :: "(rat \<times> string) list \<Rightarrow> rat \<Rightarrow> string" where
  "current_lyric_of lyrics_data current_playback_time =
     current_lyric_loop [] lyrics_data current_playback_time"

text \<open>The test of the rendering loop: a line is marked when its text equals the active
  text.\<close>

definition highlighted :: "string \<Rightarrow> string \<Rightarrow> bool" where
  "highlighted current_lyric text = (text = current_lyric)"

definition line_html :: "string \<Rightarrow> string \<Rightarrow> string" where
  "line_html current_lyric text =
     (if highlighted current_lyric text
      then ''<mark><b>'' @ text @ ''</b></mark><br>''
      else ''<span style='' @ [CHR 0x27] @ ''color: #888;'' @ [CHR 0x27] @ ''>'' @ text
             @ ''</span><br>'')"

fun full_text_html_loop :: "string \<Rightarrow> (rat \<times> string) list \<Rightarrow> string \<Rightarrow> string" where
  "full_text_html_loop full_text_html [] current_lyric = full_text_html"
| "full_text_html_loop full_text_html ((time_sec, text) # lyrics_data) current_lyric =
     full_text_html_loop (full_text_html @ line_html current_lyric text) lyrics_data
       current_lyric"

text \<open>The highlight flag of every line of the track, in order: which branch the
  rendering loop takes for it.\<close>

definition highlight_flags :: "(rat \<times> string) list \<Rightarrow> rat \<Rightarrow> bool list" where
  "highlight_flags lyrics_data current_playback_time =
     map (\<lambda>(time_sec, text). highlighted (current_lyric_of lyrics_data current_playback_time) text)
       lyrics_data"

definition full_text_html_of :: "(rat \<times> string) list \<Rightarrow> rat \<Rightarrow> string" where
  "full_text_html_of lyrics_data current_playback_time =
     full_text_html_loop [] lyrics_data (current_lyric_of lyrics_data current_playback_time)"

section \<open>The upload loop\<close>

record uploaded_file =
  file_name :: string
  file_type :: string

text \<open>A song of the playlist: the dict appended to \<^verbatim>\<open>processed_songs\<close>.\<close>

record song =
  name :: string
  temp_audio_path :: string
  duration :: rat
  lrc_data :: string

text \<open>What the sidebar shows: the labels of the status box and the error message.\<close>

datatype ui_event =
    StatusProcessing string
  | StatusComplete string
  | StatusError string
  | SidebarError string

text \<open>The collaborators of the upload loop, outside the program: saving the upload,
  the two duration probes and the transcription. Each either returns or raises an
  exception, of which the model keeps the message (\<open>Inl\<close>, or \<open>Some\<close> for the save).\<close>

record host =
  save_file :: "string \<Rightarrow> uploaded_file \<Rightarrow> string option"
  MP3 :: "string \<Rightarrow> uploaded_file \<Rightarrow> string + rat"
  WAVE :: "string \<Rightarrow> uploaded_file \<Rightarrow> string + rat"
  transcribe :: "string \<Rightarrow> uploaded_file \<Rightarrow> string + segment list"

record session =
  processed_songs :: "song list"
  sidebar :: "ui_event list"

definition temp_dir :: string where
  "temp_dir = ''/tmp/streamlit_uploads''"

text \<open>\<^verbatim>\<open>os.path.join(temp_dir, name)\<close>: an absolute second component replaces the first.\<close>

definition os_path_join :: "string \<Rightarrow> string \<Rightarrow> string" where
  "os_path_join a b = (if b \<noteq> [] \<and> hd b = CHR ''/'' then b else a @ CHR ''/'' # b)"

text \<open>The body of the \<^verbatim>\<open>try\<close> block for one file: the new song, or the message of the
  exception that left the block.\<close>

definition process_file :: "host \<Rightarrow> uploaded_file \<Rightarrow> string + song" where
  "process_file h uploaded =
     (let path = os_path_join temp_dir (file_name uploaded)
      in case save_file h path uploaded of
           Some e \<Rightarrow> Inl e
         | None \<Rightarrow>
             (case (if file_type uploaded = ''audio/mpeg'' then MP3 h path uploaded
                    else WAVE h path uploaded) of
                Inl e \<Rightarrow> Inl e
              | Inr song_duration \<Rightarrow>
                  (case transcribe h path uploaded of
                     Inl e \<Rightarrow> Inl e
                   | Inr segments \<Rightarrow>
                       Inr \<lparr>name = file_name uploaded, temp_audio_path = path,
                            duration = song_duration,
                            lrc_data = generate_lrc_content segments\<rparr>)))"

text \<open>The loop over the uploaded files. \<^verbatim>\<open>processed_names\<close> is the list of names
  computed once before the loop; the state is \<^verbatim>\<open>did_process_a_file\<close> and the session.\<close>

fun upload_loop ::
  "host \<Rightarrow> string list \<Rightarrow> uploaded_file list \<Rightarrow> bool \<times> session \<Rightarrow> bool \<times> session" where
  "upload_loop h processed_names [] st = st"
| "upload_loop h processed_names (uploaded # files) (did_process_a_file, s) =
     (if file_name uploaded \<notin> set processed_names
      then (case process_file h uploaded of
              Inr sg \<Rightarrow>
                upload_loop h processed_names files
                  (True, s\<lparr>processed_songs := processed_songs s @ [sg],
                            sidebar := sidebar s @ [StatusProcessing (file_name uploaded),
                                                    StatusComplete (file_name uploaded)]\<rparr>)
            | Inl e \<Rightarrow>
                upload_loop h processed_names files
                  (True, s\<lparr>sidebar := sidebar s @ [StatusProcessing (file_name uploaded),
                                                    StatusError (file_name uploaded),
                                                    SidebarError e]\<rparr>))
      else upload_loop h processed_names files (did_process_a_file, s))"

text \<open>The block \<^verbatim>\<open>if uploaded_files:\<close> of one run of the script; the flag asks for a
  rerun.\<close>

definition upload :: "host \<Rightarrow> uploaded_file list \<Rightarrow> session \<Rightarrow> bool \<times> session" where
  "upload h uploaded_files s =
     (if uploaded_files = [] then (False, s)
      else upload_loop h (map name (processed_songs s)) uploaded_files (False, s))"

section \<open>The properties, in the words of the specification\<close>

text \<open>The active line of the specification: the text of the last line of the whole
  track whose offset is at most the elapsed time, empty when there is none.\<close>

definition active_line_spec :: "(rat \<times> string) list \<Rightarrow> rat \<Rightarrow> string" where
  "active_line_spec lyric_track elapsed =
     (case filter (\<lambda>(offset, text). offset \<le> elapsed) lyric_track of
        [] \<Rightarrow> []
      | l # ls \<Rightarrow> snd (last (l # ls)))"

text \<open>The same over the lines that the scan reaches: those before the first line whose
  offset exceeds the elapsed time.\<close>

definition active_line_prefix :: "(rat \<times> string) list \<Rightarrow> rat \<Rightarrow> string" where
  "active_line_prefix lyric_track elapsed =
     (case takeWhile (\<lambda>(offset, text). offset \<le> elapsed) lyric_track of
        [] \<Rightarrow> []
      | l # ls \<Rightarrow> snd (last (l # ls)))"

text \<open>The entry of one line in the words of the specification: a bracket, two digits,
  a colon, two digits, a point, two digits, a bracket, and the rest verbatim.\<close>

definition lrc_entry :: "string \<Rightarrow> (rat \<times> string) option" where
  "lrc_entry line =
     (if 10 \<le> length line \<and> line ! 0 = CHR ''['' \<and> is_digit (line ! 1) \<and> is_digit (line ! 2)
         \<and> line ! 3 = CHR '':'' \<and> is_digit (line ! 4) \<and> is_digit (line ! 5)
         \<and> line ! 6 = CHR ''.'' \<and> is_digit (line ! 7) \<and> is_digit (line ! 8)
         \<and> line ! 9 = CHR '']''
      then Some (of_nat (10 * digit_val (line ! 1) + digit_val (line ! 2)) * 60
                   + of_nat (10 * digit_val (line ! 4) + digit_val (line ! 5))
                   + of_nat (10 * digit_val (line ! 7) + digit_val (line ! 8)) / 100,
                 drop 10 line)
      else None)"




text \<open>What one uploaded file adds to the playlist and to the sidebar.\<close>

definition file_songs :: "host \<Rightarrow> string list \<Rightarrow> uploaded_file \<Rightarrow> song list" where
  "file_songs h processed_names uploaded =
     (if file_name uploaded \<in> set processed_names then []
      else case process_file h uploaded of Inr sg \<Rightarrow> [sg] | Inl e \<Rightarrow> [])"

definition file_events :: "host \<Rightarrow> string list \<Rightarrow> uploaded_file \<Rightarrow> ui_event list" where
  "file_events h processed_names uploaded =
     (if file_name uploaded \<in> set processed_names then []
      else case process_file h uploaded of
             Inr sg \<Rightarrow> [StatusProcessing (file_name uploaded), StatusComplete (file_name uploaded)]
           | Inl e \<Rightarrow> [StatusProcessing (file_name uploaded), StatusError (file_name uploaded),
                       SidebarError e])"

text \<open>Sample collaborators: every save succeeds, the probes give two minutes, and the
  transcription fails on the file named \<^verbatim>\<open>bad.mp3\<close> and gives no segment otherwise.\<close>

definition sample_host :: host where
  "sample_host =
     \<lparr>save_file = (\<lambda>path f. None),
      MP3 = (\<lambda>path f. Inr 120),
      WAVE = (\<lambda>path f. Inr 120),
      transcribe = (\<lambda>path f. if file_name f = ''bad.mp3'' then Inl ''corrupt audio''
                               else Inr [])\<rparr>"

definition mp3_file :: "string \<Rightarrow> uploaded_file" where
  "mp3_file n = \<lparr>file_name = n, file_type = ''audio/mpeg''\<rparr>"

definition empty_session :: session where
  "empty_session = \<lparr>processed_songs = [], sidebar = []\<rparr>"

section \<open>The active line\<close>

text \<open>The scan returns the text of the last line of the longest prefix of the track
  whose offsets are all at most the elapsed time, or what it started with.\<close>

lemma current_lyric_loop_prefix:
  "current_lyric_loop cur lyrics t =
     (case takeWhile (\<lambda>(offset, text). offset \<le> t) lyrics of
        [] \<Rightarrow> cur
      | l # ls \<Rightarrow> snd (last (l # ls)))"
proof (induction lyrics arbitrary: cur)
  case Nil
  show ?case by simp
next
  case (Cons p lyrics)
  obtain time_sec tx where p: "p = (time_sec, tx)" by (cases p)
  show ?case
    by (simp add: p Cons.IH split: list.splits)
qed

text \<open>On a track with ascending offsets the lines that are due form a prefix.\<close>

lemma sorted_filter_takeWhile:
  "sorted (map fst lyrics) \<Longrightarrow>
     filter (\<lambda>(offset, text). offset \<le> (t::rat)) lyrics
       = takeWhile (\<lambda>(offset, text). offset \<le> t) lyrics"
proof (induction lyrics)
  case Nil
  show ?case by simp
next
  case (Cons p lyrics)
  obtain time_sec tx where p: "p = (time_sec, tx)" by (cases p)
  from Cons.prems have later: "\<forall>q \<in> set lyrics. time_sec \<le> fst q"
    by (simp add: p)
  from Cons.prems have "sorted (map fst lyrics)" by simp
  then have IH: "filter (\<lambda>(offset, text). offset \<le> t) lyrics
       = takeWhile (\<lambda>(offset, text). offset \<le> t) lyrics"
    by (rule Cons.IH)
  show ?case
  proof (cases "time_sec \<le> t")
    case True
    then show ?thesis by (simp add: p IH)
  next
    case False
    with later have "\<forall>q \<in> set lyrics. \<not> fst q \<le> t" by fastforce
    then have "filter (\<lambda>(offset, text). offset \<le> t) lyrics = []"
      by (auto simp: filter_empty_conv)
    with False show ?thesis by (simp add: p)
  qed
qed

text \<open>Claim C2, as it holds. For every track and every elapsed time, the active line is
  the text of the last line before the first line whose offset exceeds the elapsed time
  (the scan stops there); on a track with ascending offsets this is the text of the last
  line of the track whose offset is at most the elapsed time; before the offset of the
  first line it is the empty string. On the track (0, a), (10, b), (20, c) the elapsed
  times 5, 15, 25 and -1 give a, b, c and the empty string.\<close>

theorem active_line_rule:
  "current_lyric_of lyrics t = active_line_prefix lyrics t
   \<and> (sorted (map fst lyrics) \<longrightarrow> current_lyric_of lyrics t = active_line_spec lyrics t)
   \<and> (\<forall>t0 x rest. lyrics = (t0, x) # rest \<and> t < t0 \<longrightarrow> current_lyric_of lyrics t = [])
   \<and> current_lyric_of [(0, ''a''), (10, ''b''), (20, ''c'')] 5 = ''a''
   \<and> current_lyric_of [(0, ''a''), (10, ''b''), (20, ''c'')] 15 = ''b''
   \<and> current_lyric_of [(0, ''a''), (10, ''b''), (20, ''c'')] 25 = ''c''
   \<and> current_lyric_of [(0, ''a''), (10, ''b''), (20, ''c'')] (- 1) = ''''"
proof -
  have a: "current_lyric_of lyrics t = active_line_prefix lyrics t"
    by (simp add: current_lyric_of_def active_line_prefix_def current_lyric_loop_prefix)
  have b: "sorted (map fst lyrics) \<longrightarrow> current_lyric_of lyrics t = active_line_spec lyrics t"
    by (simp add: a active_line_prefix_def active_line_spec_def sorted_filter_takeWhile)
  have c: "\<forall>t0 x rest. lyrics = (t0, x) # rest \<and> t < t0 \<longrightarrow> current_lyric_of lyrics t = []"
    by (auto simp: current_lyric_of_def)
  have d: "current_lyric_of [(0, ''a''), (10, ''b''), (20, ''c'')] 5 = ''a''"
    "current_lyric_of [(0, ''a''), (10, ''b''), (20, ''c'')] 15 = ''b''"
    "current_lyric_of [(0, ''a''), (10, ''b''), (20, ''c'')] 25 = ''c''"
    "current_lyric_of [(0, ''a''), (10, ''b''), (20, ''c'')] (- 1) = ''''"
    by (simp_all add: current_lyric_of_def)
  from a b c d show ?thesis by blast
qed

theorem active_line_rule_witness:
  "sorted (map fst [(0::rat, ''a''), (10, ''b''), (20, ''c'')])
   \<and> current_lyric_of [(0, ''a''), (10, ''b''), (20, ''c'')] 15
       = active_line_spec [(0, ''a''), (10, ''b''), (20, ''c'')] 15
   \<and> (5::rat) < 10 \<and> current_lyric_of [(10, ''b''), (20, ''c'')] 5 = []"
proof -
  have s: "sorted (map fst [(0::rat, ''a''), (10, ''b''), (20, ''c'')])"
    by simp
  have l: "(5::rat) < 10"
    by simp
  from s active_line_rule [of "[(0, ''a''), (10, ''b''), (20, ''c'')]" 15]
  have a: "current_lyric_of [(0, ''a''), (10, ''b''), (20, ''c'')] 15
       = active_line_spec [(0, ''a''), (10, ''b''), (20, ''c'')] 15"
    by blast
  from l active_line_rule [of "[(10, ''b''), (20, ''c'')]" 5]
  have b: "current_lyric_of [(10, ''b''), (20, ''c'')] 5 = []"
    by blast
  from s l a b show ?thesis by blast
qed

text \<open>On the track (0, a), (10, b), (5, c), which is not ascending, the scan at the
  elapsed time 7 stops at the second line and gives a, while the last line of the track
  whose offset is at most 7 is c.\<close>

theorem active_line_unsorted_counterexample:
  "current_lyric_of [(0, ''a''), (10, ''b''), (5, ''c'')] 7 = ''a''
   \<and> active_line_spec [(0, ''a''), (10, ''b''), (5, ''c'')] 7 = ''c''"
  by (simp add: current_lyric_of_def active_line_spec_def)

section \<open>The progress fraction\<close>

text \<open>Claim C3. For every elapsed time that is not negative and every positive duration,
  the progress is the smaller of elapsed / duration and 1, it is computed without an
  error, and it lies between 0 and 1; the progress of 150, 0 and 60 seconds in a song
  of 120 seconds is 1, 0 and one half.\<close>

theorem progress_rule:
  "(0 \<le> elapsed \<and> 0 < dur \<longrightarrow>
      progress elapsed dur = Inr (min (elapsed / dur) 1)
      \<and> 0 \<le> min (elapsed / dur) 1 \<and> min (elapsed / dur) 1 \<le> 1)
   \<and> progress 150 120 = Inr 1 \<and> progress 0 120 = Inr 0 \<and> progress 60 120 = Inr (1 / 2)"
  by (simp add: progress_def)

theorem progress_rule_witness:
  "(0::rat) \<le> 90 \<and> (0::rat) < 120 \<and> progress 90 120 = Inr (3 / 4)"
  using progress_rule [of 90 120] by simp

section \<open>The rendering of the lyrics\<close>

text \<open>The rendering loop appends the piece of every line, in the order of the track.\<close>

lemma full_text_html_loop_concat:
  "full_text_html_loop acc lyrics cur
     = acc @ concat (map (\<lambda>(time_sec, text). line_html cur text) lyrics)"
  by (induction lyrics arbitrary: acc) auto

text \<open>Claim C8, as it holds. For every track and every elapsed time strictly before the
  offset of the first line, the active line is the empty string, and a line is marked in
  the rendered lyrics exactly when its own text is empty: the marking compares texts, so
  no line with a text is marked, and on a track without empty texts no line is marked.\<close>

theorem no_highlight_before_first_line:
  "lyrics = (t0, x) # rest \<and> t < t0 \<longrightarrow>
     current_lyric_of lyrics t = []
     \<and> highlight_flags lyrics t = map (\<lambda>(time_sec, text). text = []) lyrics
     \<and> full_text_html_of lyrics t
         = concat (map (\<lambda>(time_sec, text). line_html [] text) lyrics)
     \<and> ((\<forall>p \<in> set lyrics. snd p \<noteq> []) \<longrightarrow> True \<notin> set (highlight_flags lyrics t))"
proof (intro impI, elim conjE)
  assume l: "lyrics = (t0, x) # rest" and t: "t < t0"
  have cur: "current_lyric_of lyrics t = []"
    using t by (simp add: l current_lyric_of_def)
  have flags: "highlight_flags lyrics t = map (\<lambda>(time_sec, text). text = []) lyrics"
    by (simp add: highlight_flags_def cur highlighted_def)
  have html: "full_text_html_of lyrics t
      = concat (map (\<lambda>(time_sec, text). line_html [] text) lyrics)"
    by (simp add: full_text_html_of_def cur full_text_html_loop_concat)
  have none: "(\<forall>p \<in> set lyrics. snd p \<noteq> []) \<longrightarrow> True \<notin> set (highlight_flags lyrics t)"
    unfolding flags by auto
  from cur flags html none
  show "current_lyric_of lyrics t = []
     \<and> highlight_flags lyrics t = map (\<lambda>(time_sec, text). text = []) lyrics
     \<and> full_text_html_of lyrics t
         = concat (map (\<lambda>(time_sec, text). line_html [] text) lyrics)
     \<and> ((\<forall>p \<in> set lyrics. snd p \<noteq> []) \<longrightarrow> True \<notin> set (highlight_flags lyrics t))"
    by blast
qed

theorem no_highlight_before_first_line_witness:
  "(5::rat) < 10
   \<and> current_lyric_of [(10, ''b''), (20, ''c'')] 5 = []
   \<and> highlight_flags [(10, ''b''), (20, ''c'')] 5 = [False, False]
   \<and> set (highlight_flags [(10, ''b''), (20, ''c'')] 5) = {False}"
proof -
  have l: "(5::rat) < 10" by simp
  have ne: "\<forall>p \<in> set [(10::rat, ''b''), (20, ''c'')]. snd p \<noteq> []" by simp
  note inst = no_highlight_before_first_line
      [of "[(10, ''b''), (20, ''c'')]" 10 "''b''" "[(20, ''c'')]" 5]
  from l inst have cur: "current_lyric_of [(10, ''b''), (20, ''c'')] 5 = []"
    by blast
  from l inst have "highlight_flags [(10, ''b''), (20, ''c'')] 5
        = map (\<lambda>(time_sec, text). text = []) [(10::rat, ''b''), (20, ''c'')]"
    by blast
  then have flags: "highlight_flags [(10, ''b''), (20, ''c'')] 5 = [False, False]"
    by simp
  from l ne inst have "True \<notin> set (highlight_flags [(10, ''b''), (20, ''c'')] 5)"
    by blast
  have "set (highlight_flags [(10, ''b''), (20, ''c'')] 5) = {False}"
    unfolding flags by simp
  with l cur flags show ?thesis by blast
qed

text \<open>On the track (5, empty text), (10, b) at the elapsed time 1, before the first
  offset, the first line is marked: its text equals the empty active text.\<close>

theorem empty_line_highlighted_counterexample:
  "(1::rat) < 5 \<and> current_lyric_of [(5, ''''), (10, ''b'')] 1 = ''''
   \<and> highlight_flags [(5, ''''), (10, ''b'')] 1 = [True, False]
   \<and> take 24 (full_text_html_of [(5, ''''), (10, ''b'')] 1) = ''<mark><b></b></mark><br>''"
  by code_simp

section \<open>Properties of the upload loop\<close>

text \<open>The loop adds to the playlist and to the sidebar what every file adds, in the
  order of the batch; what a file adds depends on the names known before the loop only.\<close>

lemma upload_loop_eq:
  "upload_loop h names files (d, s) =
     (d \<or> (\<exists>f \<in> set files. file_name f \<notin> set names),
      s\<lparr>processed_songs := processed_songs s @ concat (map (file_songs h names) files),
        sidebar := sidebar s @ concat (map (file_events h names) files)\<rparr>)"
proof (induction files arbitrary: d s)
  case Nil
  show ?case by simp
next
  case (Cons f files)
  show ?case
    by (cases "process_file h f")
       (auto simp: Cons.IH file_songs_def file_events_def)
qed

text \<open>A batch of files whose names are all in the playlist changes nothing and asks for
  no rerun.\<close>

lemma upload_known_names_skipped:
  "\<forall>f \<in> set files. file_name f \<in> name ` set (processed_songs s) \<Longrightarrow>
     upload h files s = (False, s)"
proof -
  assume known: "\<forall>f \<in> set files. file_name f \<in> name ` set (processed_songs s)"
  then have "concat (map (file_songs h (map name (processed_songs s))) files) = []"
    and "concat (map (file_events h (map name (processed_songs s))) files) = []"
    by (auto simp: file_songs_def file_events_def)
  with known show ?thesis
    by (simp add: upload_def upload_loop_eq)
qed

text \<open>Claim C9, on the input where it fails. The names are compared with the list taken
  before the loop, which the loop does not extend: a batch that holds the name
  \<^verbatim>\<open>a.mp3\<close> twice, uploaded to an empty playlist, leaves two songs of that name.\<close>

theorem upload_duplicate_in_batch:
  "map name (processed_songs (snd (upload sample_host
       [mp3_file ''a.mp3'', mp3_file ''a.mp3''] empty_session))) = [''a.mp3'', ''a.mp3'']"
  by code_simp

text \<open>Claim C10. For every batch, when the processing of a new file raises, the
  sidebar shows the error status with the name of that file and the message of the
  exception, the file adds no song, and the other files of the batch are processed as
  they are without it: the playlist and the rest of the sidebar are those of the batch
  without the failed file.\<close>

theorem upload_error_isolation:
  "file_name bad \<notin> set names \<and> process_file h bad = Inl e \<longrightarrow>
     processed_songs (snd (upload_loop h names (xs @ bad # ys) (d, s)))
       = processed_songs (snd (upload_loop h names (xs @ ys) (d, s)))
     \<and> (\<exists>before after.
           sidebar (snd (upload_loop h names (xs @ bad # ys) (d, s)))
             = before @ [StatusProcessing (file_name bad), StatusError (file_name bad),
                         SidebarError e] @ after
           \<and> sidebar (snd (upload_loop h names (xs @ ys) (d, s))) = before @ after)
     \<and> processed_songs (snd (upload_loop h names (xs @ bad # ys) (d, s)))
         = processed_songs s @ concat (map (file_songs h names) xs)
             @ concat (map (file_songs h names) ys)"
proof (intro impI, elim conjE)
  assume new: "file_name bad \<notin> set names" and fails: "process_file h bad = Inl e"
  have no_song: "file_songs h names bad = []"
    by (simp add: file_songs_def fails)
  have ev: "file_events h names bad
      = [StatusProcessing (file_name bad), StatusError (file_name bad), SidebarError e]"
    by (simp add: file_events_def new fails)
  have songs: "processed_songs (snd (upload_loop h names (xs @ bad # ys) (d, s)))
       = processed_songs (snd (upload_loop h names (xs @ ys) (d, s)))"
    by (simp add: upload_loop_eq no_song)
  have songs': "processed_songs (snd (upload_loop h names (xs @ bad # ys) (d, s)))
         = processed_songs s @ concat (map (file_songs h names) xs)
             @ concat (map (file_songs h names) ys)"
    by (simp add: upload_loop_eq no_song)
  define before where "before = sidebar s @ concat (map (file_events h names) xs)"
  define after where "after = concat (map (file_events h names) ys)"
  have "sidebar (snd (upload_loop h names (xs @ bad # ys) (d, s)))
             = before @ [StatusProcessing (file_name bad), StatusError (file_name bad),
                         SidebarError e] @ after"
    by (simp add: upload_loop_eq ev before_def after_def)
  moreover have "sidebar (snd (upload_loop h names (xs @ ys) (d, s))) = before @ after"
    by (simp add: upload_loop_eq before_def after_def)
  ultimately have side: "\<exists>before after.
           sidebar (snd (upload_loop h names (xs @ bad # ys) (d, s)))
             = before @ [StatusProcessing (file_name bad), StatusError (file_name bad),
                         SidebarError e] @ after
           \<and> sidebar (snd (upload_loop h names (xs @ ys) (d, s))) = before @ after"
    by blast
  from songs side songs'
  show "processed_songs (snd (upload_loop h names (xs @ bad # ys) (d, s)))
       = processed_songs (snd (upload_loop h names (xs @ ys) (d, s)))
     \<and> (\<exists>before after.
           sidebar (snd (upload_loop h names (xs @ bad # ys) (d, s)))
             = before @ [StatusProcessing (file_name bad), StatusError (file_name bad),
                         SidebarError e] @ after
           \<and> sidebar (snd (upload_loop h names (xs @ ys) (d, s))) = before @ after)
     \<and> processed_songs (snd (upload_loop h names (xs @ bad # ys) (d, s)))
         = processed_songs s @ concat (map (file_songs h names) xs)
             @ concat (map (file_songs h names) ys)"
    by blast
qed

theorem upload_error_isolation_witness:
  "file_name (mp3_file ''bad.mp3'') \<notin> set []
   \<and> process_file sample_host (mp3_file ''bad.mp3'') = Inl ''corrupt audio''
   \<and> map name (processed_songs (snd (upload_loop sample_host []
        ([mp3_file ''a.mp3''] @ mp3_file ''bad.mp3'' # [mp3_file ''c.mp3''])
        (False, empty_session)))) = [''a.mp3'', ''c.mp3'']"
proof -
  have new: "file_name (mp3_file ''bad.mp3'') \<notin> set []"
    by simp
  have fails: "process_file sample_host (mp3_file ''bad.mp3'') = Inl ''corrupt audio''"
    by (simp add: process_file_def sample_host_def mp3_file_def)
  have rest: "map name (processed_songs (snd (upload_loop sample_host []
        ([mp3_file ''a.mp3''] @ [mp3_file ''c.mp3'']) (False, empty_session))))
      = [''a.mp3'', ''c.mp3'']"
    by (simp add: process_file_def sample_host_def mp3_file_def empty_session_def)
  note iso = upload_error_isolation [of "mp3_file ''bad.mp3''" "[]" sample_host
      "''corrupt audio''" "[mp3_file ''a.mp3'']" "[mp3_file ''c.mp3'']" False empty_session]
  have same: "processed_songs (snd (upload_loop sample_host []
        ([mp3_file ''a.mp3''] @ mp3_file ''bad.mp3'' # [mp3_file ''c.mp3''])
        (False, empty_session)))
      = processed_songs (snd (upload_loop sample_host []
        ([mp3_file ''a.mp3''] @ [mp3_file ''c.mp3'']) (False, empty_session)))"
    by (rule conjunct1 [OF mp [OF iso conjI [OF new fails]]])
  show ?thesis
    unfolding same by (intro conjI new fails rest)
qed

section \<open>Digits and decimal numerals\<close>

text \<open>The ten digits, their values, and the decimal numeral of a natural number: it
  consists of digits, reads back as the number, and has two characters once padded when
  the number is below one hundred and at least three from one hundred on.\<close>

lemma lt10_cases:
  "(d::nat) < 10 \<Longrightarrow> d = 0 \<or> d = 1 \<or> d = 2 \<or> d = 3 \<or> d = 4 \<or> d = 5 \<or> d = 6 \<or> d = 7 \<or> d = 8 \<or> d = 9"
  by arith

lemma is_digit_digit_char: "d < 10 \<Longrightarrow> is_digit (digit_char d)"
  by (drule lt10_cases) (auto simp: is_digit_def digit_char_def)

lemma digit_val_digit_char: "d < 10 \<Longrightarrow> digit_val (digit_char d) = d"
  by (drule lt10_cases) (auto simp: digit_val_def digit_char_def)


lemma is_digit_cases:
  "is_digit c \<Longrightarrow> \<exists>d < 10. c = digit_char d"
proof -
  assume "is_digit c"
  then have "c \<in> set ''0123456789''" by (simp add: is_digit_def)
  then obtain i where "i < length ''0123456789''" and c: "''0123456789'' ! i = c"
    unfolding in_set_conv_nth by blast
  then have "i < 10" by simp
  moreover from c have "c = digit_char i" by (simp add: digit_char_def)
  ultimately show ?thesis by blast
qed

lemma is_digit_not_punct:
  "is_digit c \<Longrightarrow> c \<noteq> CHR ''.'' \<and> c \<noteq> LF \<and> \<not> is_linebreak c"
  by (auto simp: is_digit_def LF_def is_linebreak_def)









lemma zfill_long: "w \<le> length s \<Longrightarrow> zfill w s = s"
  by (simp add: zfill_def)

section \<open>Rounding to hundredths and the seconds field\<close>









lemma py_int_shape:
  "a < 10 \<Longrightarrow> b < 10 \<Longrightarrow> py_int [digit_char a, digit_char b] = Inr (int (10 * a + b))"
  by (simp add: py_int_def is_digit_digit_char digits_val_def digit_val_digit_char)

section \<open>Lines of a string\<close>

text \<open>No line of \<^const>\<open>splitlines\<close> holds a line boundary; a string without one is its
  own single line; a line followed by a boundary is split off; and a line feed in a
  string separates the lines before it from the lines after it.\<close>

lemma splitlines_unfold:
  "s \<noteq> [] \<Longrightarrow> splitlines s =
     takeWhile (\<lambda>x. \<not> is_linebreak x) s #
       (case dropWhile (\<lambda>x. \<not> is_linebreak x) s of
          [] \<Rightarrow> []
        | b # after \<Rightarrow>
            (case after of
               [] \<Rightarrow> []
             | a # after' \<Rightarrow>
                 if b = CR \<and> a = LF then splitlines after' else splitlines after))"
proof (cases s)
  case Nil
  assume "s \<noteq> []"
  with Nil show ?thesis by simp
next
  case (Cons c cs)
  show ?thesis
    unfolding Cons splitlines.simps Let_def by (rule refl)
qed

lemma splitlines_no_break:
  "l \<in> set (splitlines s) \<Longrightarrow> c \<in> set l \<Longrightarrow> \<not> is_linebreak c"
proof (induction s arbitrary: l rule: length_induct)
  case (1 s)
  show ?case
  proof (cases s)
    case Nil
    with 1 show ?thesis by (simp add: splitlines.simps)
  next
    case (Cons x xs)
    define line where "line = takeWhile (\<lambda>x. \<not> is_linebreak x) s"
    define rest where "rest = dropWhile (\<lambda>x. \<not> is_linebreak x) s"
    have len: "length rest \<le> length s"
      unfolding rest_def by (rule length_dropWhile_le)
    have line_ok: "\<forall>c \<in> set line. \<not> is_linebreak c"
      unfolding line_def by (auto dest: set_takeWhileD)
    from Cons have ne: "s \<noteq> []" by simp
    note unf = splitlines_unfold [OF ne, folded line_def rest_def]
    show ?thesis
    proof (cases rest)
      case Nil
      with unf 1 line_ok show ?thesis by simp
    next
      case r: (Cons b after)
      show ?thesis
      proof (cases after)
        case Nil
        with unf r 1 line_ok show ?thesis by simp
      next
        case a: (Cons a after')
        from r a len have l1: "length after < length s" and l2: "length after' < length s"
          by simp_all
        from 1(2) unf r a
        consider "l = line" | "l \<in> set (splitlines after')" | "l \<in> set (splitlines after)"
          by (auto split: if_splits)
        then show ?thesis
        proof cases
          case 1
          with line_ok \<open>c \<in> set l\<close> show ?thesis by simp
        next
          case 2
          with "1.IH" l2 \<open>c \<in> set l\<close> show ?thesis by blast
        next
          case 3
          with "1.IH" l1 \<open>c \<in> set l\<close> show ?thesis by blast
        qed
      qed
    qed
  qed
qed


lemma splitlines_line_then:
  assumes nb: "\<forall>c \<in> set l. \<not> is_linebreak c" and b: "is_linebreak b"
    and r: "r \<noteq> []" and ncrlf: "\<not> (b = CR \<and> hd r = LF)"
  shows "splitlines (l @ b # r) = l # splitlines r"
proof -
  from nb b have t: "takeWhile (\<lambda>x. \<not> is_linebreak x) (l @ b # r) = l"
    by (simp add: takeWhile_append2)
  from nb b have d: "dropWhile (\<lambda>x. \<not> is_linebreak x) (l @ b # r) = b # r"
    by (simp add: dropWhile_append2)
  have "l @ b # r \<noteq> []" by simp
  from splitlines_unfold [OF this] r ncrlf show ?thesis
    unfolding t d by (cases r) auto
qed

lemma splitlines_line_last:
  assumes nb: "\<forall>c \<in> set l. \<not> is_linebreak c" and b: "is_linebreak b"
  shows "splitlines (l @ [b]) = [l]"
proof -
  from nb b have t: "takeWhile (\<lambda>x. \<not> is_linebreak x) (l @ [b]) = l"
    by (simp add: takeWhile_append2)
  from nb b have d: "dropWhile (\<lambda>x. \<not> is_linebreak x) (l @ [b]) = [b]"
    by (simp add: dropWhile_append2)
  have "l @ [b] \<noteq> []" by simp
  from splitlines_unfold [OF this] show ?thesis
    unfolding t d by simp
qed

lemma splitlines_line_crlf:
  assumes nb: "\<forall>c \<in> set l. \<not> is_linebreak c"
  shows "splitlines (l @ CR # LF # r) = l # splitlines r"
proof -
  have cr: "is_linebreak CR" by (simp add: is_linebreak_def CR_def)
  from nb cr have t: "takeWhile (\<lambda>x. \<not> is_linebreak x) (l @ CR # LF # r) = l"
    by (simp add: takeWhile_append2)
  from nb cr have d: "dropWhile (\<lambda>x. \<not> is_linebreak x) (l @ CR # LF # r) = CR # LF # r"
    by (simp add: dropWhile_append2)
  have "l @ CR # LF # r \<noteq> []" by simp
  from splitlines_unfold [OF this] show ?thesis
    unfolding t d by (cases r) simp_all
qed

lemma is_linebreak_LF: "is_linebreak LF"
  by (simp add: is_linebreak_def LF_def)

lemma CR_neq_LF: "CR \<noteq> LF"
  by (simp add: CR_def LF_def)

lemma splitlines_line_LF:
  "\<forall>c \<in> set l. \<not> is_linebreak c \<Longrightarrow> splitlines (l @ LF # b) = l # splitlines b"
proof (cases b)
  case Nil
  assume "\<forall>c \<in> set l. \<not> is_linebreak c"
  with Nil show ?thesis
    by (simp add: splitlines_line_last is_linebreak_LF splitlines.simps)
next
  case (Cons x xs)
  assume "\<forall>c \<in> set l. \<not> is_linebreak c"
  then show ?thesis
    using CR_neq_LF by (intro splitlines_line_then) (simp_all add: is_linebreak_LF Cons)
qed

lemma splitlines_append_LF:
  "splitlines (a @ LF # b) = splitlines (a @ [LF]) @ splitlines b"
proof (induction a rule: length_induct)
  case (1 a)
  define l where "l = takeWhile (\<lambda>x. \<not> is_linebreak x) a"
  define rest where "rest = dropWhile (\<lambda>x. \<not> is_linebreak x) a"
  have a: "a = l @ rest"
    unfolding l_def rest_def by simp
  have nb: "\<forall>c \<in> set l. \<not> is_linebreak c"
    unfolding l_def by (auto dest: set_takeWhileD)
  show ?case
  proof (cases rest)
    case Nil
    with a have "a = l" by simp
    with nb show ?thesis
      by (simp add: splitlines_line_LF splitlines_line_last is_linebreak_LF)
  next
    case (Cons c r)
    have "\<not> \<not> is_linebreak (hd (dropWhile (\<lambda>x. \<not> is_linebreak x) a))"
      by (rule hd_dropWhile) (simp add: Cons rest_def [symmetric])
    with Cons have c: "is_linebreak c" by (simp add: rest_def [symmetric])
    from a Cons have a': "a = l @ c # r" by simp
    show ?thesis
    proof (cases r)
      case Nil
      show ?thesis
      proof (cases "c = CR")
        case True
        have "splitlines (l @ CR # LF # b) = l # splitlines b"
          and "splitlines (l @ CR # LF # []) = l # splitlines []"
          using nb by (rule splitlines_line_crlf)+
        then show ?thesis
          by (simp add: a' Nil True splitlines.simps(1))
      next
        case False
        have "splitlines (l @ c # (LF # b)) = l # splitlines (LF # b)"
          using nb c False by (intro splitlines_line_then) simp_all
        moreover have "splitlines ([] @ LF # b) = [] # splitlines b"
          by (rule splitlines_line_LF) simp
        moreover have "splitlines (l @ c # [LF]) = l # splitlines [LF]"
          using nb c False by (intro splitlines_line_then) simp_all
        moreover have "splitlines ([] @ [LF]) = [[]]"
          by (rule splitlines_line_last) (simp_all add: is_linebreak_LF)
        ultimately show ?thesis
          by (simp add: a' Nil)
      qed
    next
      case r: (Cons d r')
      show ?thesis
      proof (cases "c = CR \<and> d = LF")
        case True
        from a' r have "length r' < length a" by simp
        with "1.IH" have IH: "splitlines (r' @ LF # b) = splitlines (r' @ [LF]) @ splitlines b"
          by blast
        have "splitlines (l @ CR # LF # (r' @ LF # b)) = l # splitlines (r' @ LF # b)"
          and "splitlines (l @ CR # LF # (r' @ [LF])) = l # splitlines (r' @ [LF])"
          using nb by (rule splitlines_line_crlf)+
        with IH True show ?thesis
          by (simp add: a' r)
      next
        case False
        from a' have "length r < length a" by simp
        with "1.IH" have IH: "splitlines (r @ LF # b) = splitlines (r @ [LF]) @ splitlines b"
          by blast
        have "splitlines (l @ c # (r @ LF # b)) = l # splitlines (r @ LF # b)"
          using nb c False r by (intro splitlines_line_then) auto
        moreover have "splitlines (l @ c # (r @ [LF])) = l # splitlines (r @ [LF])"
          using nb c False r by (intro splitlines_line_then) auto
        ultimately show ?thesis
          using IH by (simp add: a')
      qed
    qed
  qed
qed

section \<open>The parser on lines\<close>

text \<open>On a line without a line feed the match of the pattern and the two conversions
  give the entry of the specification, or nothing; the conversions never raise on
  what the pattern matched.\<close>

lemma py_int_two:
  "is_digit a \<Longrightarrow> is_digit b \<Longrightarrow> py_int [a, b] = Inr (int (10 * digit_val a + digit_val b))"
  by (simp add: py_int_def digits_val_def)

lemma py_float_two_two:
  assumes "is_digit a" "is_digit b" "is_digit c" "is_digit d"
  shows "py_float [a, b, CHR ''.'', c, d]
     = Inr (of_nat (10 * digit_val a + digit_val b) + of_nat (10 * digit_val c + digit_val d) / 100)"
  using assms is_digit_not_punct [of a] is_digit_not_punct [of b]
  by (simp add: py_float_def Let_def digits_val_def)

lemma takeWhile_no_LF: "LF \<notin> set r \<Longrightarrow> takeWhile (\<lambda>x. x \<noteq> LF) r = r"
  by (induction r) auto

lemma parse_loop_step:
  assumes "LF \<notin> set line"
  shows "parse_loop acc (line # lines)
     = parse_loop (acc @ (case lrc_entry line of None \<Rightarrow> [] | Some e \<Rightarrow> [e])) lines"
proof (cases line rule: lrc_match.cases)
  case (1 b m1 m2 c s1 s2 d f1 f2 e rest)
  from assms 1 have rest: "takeWhile (\<lambda>x. x \<noteq> LF) rest = rest"
    by (intro takeWhile_no_LF) simp
  show ?thesis
  proof (cases "b = CHR ''['' \<and> is_digit m1 \<and> is_digit m2 \<and> c = CHR '':''
         \<and> is_digit s1 \<and> is_digit s2 \<and> d = CHR ''.'' \<and> is_digit f1 \<and> is_digit f2
         \<and> e = CHR '']''")
    case True
    then have m: "lrc_match line = Some ([m1, m2], [s1, s2, CHR ''.'', f1, f2], rest)"
      by (simp add: 1 rest)
    from True have i: "py_int [m1, m2] = Inr (int (10 * digit_val m1 + digit_val m2))"
      by (simp add: py_int_two)
    from True have f: "py_float [s1, s2, CHR ''.'', f1, f2]
       = Inr (of_nat (10 * digit_val s1 + digit_val s2)
              + of_nat (10 * digit_val f1 + digit_val f2) / 100)"
      by (simp add: py_float_two_two)
    from True have en: "lrc_entry line
       = Some (of_nat (10 * digit_val m1 + digit_val m2) * 60
               + of_nat (10 * digit_val s1 + digit_val s2)
               + of_nat (10 * digit_val f1 + digit_val f2) / 100, rest)"
      by (simp add: lrc_entry_def 1)
    show ?thesis
      by (simp add: m i f en add.assoc)
  next
    case False
    then have "lrc_match line = None" by (auto simp: 1)
    moreover from False have "lrc_entry line = None" by (auto simp: lrc_entry_def 1)
    ultimately show ?thesis by simp
  qed
qed (simp_all add: lrc_entry_def)

lemma parse_loop_lines:
  "\<forall>l \<in> set lines. LF \<notin> set l \<Longrightarrow>
     parse_loop acc lines = Inr (acc @ List.map_filter lrc_entry lines)"
proof (induction lines arbitrary: acc)
  case Nil
  show ?case by (simp add: List.map_filter_simps)
next
  case (Cons line lines)
  from Cons.prems have "LF \<notin> set line" by simp
  then have "parse_loop acc (line # lines)
     = parse_loop (acc @ (case lrc_entry line of None \<Rightarrow> [] | Some e \<Rightarrow> [e])) lines"
    by (rule parse_loop_step)
  also have "\<dots> = Inr ((acc @ (case lrc_entry line of None \<Rightarrow> [] | Some e \<Rightarrow> [e]))
                        @ List.map_filter lrc_entry lines)"
    using Cons.prems by (intro Cons.IH) simp
  finally show ?case
    by (simp add: List.map_filter_simps split: option.splits)
qed

lemma splitlines_no_LF: "l \<in> set (splitlines s) \<Longrightarrow> LF \<notin> set l"
  using splitlines_no_break [of l s LF] is_linebreak_LF by blast

lemma parse_lrc_entries: "parse_lrc s = Inr (List.map_filter lrc_entry (splitlines s))"
  unfolding parse_lrc_def using parse_loop_lines [of "splitlines s" "[]"]
  by (simp add: splitlines_no_LF)

lemma parse_loop_append:
  "parse_loop acc (xs @ ys)
     = (case parse_loop acc xs of Inl e \<Rightarrow> Inl e | Inr r \<Rightarrow> parse_loop r ys)"
  by (induction xs arbitrary: acc) (auto split: option.splits sum.splits)

lemma parse_loop_skip:
  "lrc_match bad = None \<Longrightarrow> parse_loop acc (xs @ bad # ys) = parse_loop acc (xs @ ys)"
  by (simp add: parse_loop_append split: sum.splits)



text \<open>Claim C5. The parser raises on no input string; the empty string gives the empty
  sequence; the lines \<^verbatim>\<open>not a lyric line\<close> and \<^verbatim>\<open>[1:2.3]hi\<close> do not match; and a
  line that does not match adds no entry and leaves the entries of the other lines as
  they are, in a list of lines as in a string where line feeds separate the lines.\<close>

theorem parser_tolerance:
  "(\<exists>r. parse_lrc s = Inr r)
   \<and> parse_lrc [] = Inr []
   \<and> lrc_match ''not a lyric line'' = None
   \<and> lrc_match ''[1:2.3]hi'' = None
   \<and> (lrc_match bad = None \<longrightarrow> parse_loop acc (xs @ bad # ys) = parse_loop acc (xs @ ys))
   \<and> (lrc_match bad = None \<and> (\<forall>c \<in> set bad. \<not> is_linebreak c) \<longrightarrow>
        parse_lrc (bad @ LF # b) = parse_lrc b
        \<and> parse_lrc (a @ LF # bad @ LF # b) = parse_lrc (a @ LF # b))
   \<and> parse_lrc (''not a lyric line'' @ LF # ''[1:2.3]hi'' @ LF # ''[00:01.00]x'')
       = Inr [(1, ''x'')]"
proof -
  have total: "\<exists>r. parse_lrc s = Inr r"
    by (simp add: parse_lrc_entries)
  have empty: "parse_lrc [] = Inr []"
    by (simp add: parse_lrc_def splitlines.simps)
  have ex1: "lrc_match ''not a lyric line'' = None"
    by simp
  have ex2: "lrc_match ''[1:2.3]hi'' = None"
    by simp
  have skip: "lrc_match bad = None \<longrightarrow>
      parse_loop acc (xs @ bad # ys) = parse_loop acc (xs @ ys)"
    by (simp add: parse_loop_skip)
  have str: "lrc_match bad = None \<and> (\<forall>c \<in> set bad. \<not> is_linebreak c) \<longrightarrow>
        parse_lrc (bad @ LF # b) = parse_lrc b
        \<and> parse_lrc (a @ LF # bad @ LF # b) = parse_lrc (a @ LF # b)"
  proof (intro impI, elim conjE)
    assume m: "lrc_match bad = None" and nb: "\<forall>c \<in> set bad. \<not> is_linebreak c"
    from nb have lines: "splitlines (bad @ LF # b) = bad # splitlines b"
      by (rule splitlines_line_LF)
    have first: "parse_lrc (bad @ LF # b) = parse_lrc b"
      using parse_loop_skip [OF m, of "[]" "[]" "splitlines b"]
      by (simp add: parse_lrc_def lines)
    have "splitlines (a @ LF # bad @ LF # b) = splitlines (a @ [LF]) @ bad # splitlines b"
      using splitlines_append_LF [of a "bad @ LF # b"] by (simp add: lines)
    moreover have "splitlines (a @ LF # b) = splitlines (a @ [LF]) @ splitlines b"
      by (rule splitlines_append_LF)
    ultimately have "parse_lrc (a @ LF # bad @ LF # b) = parse_lrc (a @ LF # b)"
      by (simp add: parse_lrc_def parse_loop_skip [OF m])
    with first show "parse_lrc (bad @ LF # b) = parse_lrc b
        \<and> parse_lrc (a @ LF # bad @ LF # b) = parse_lrc (a @ LF # b)"
      by blast
  qed
  have ex3: "parse_lrc (''not a lyric line'' @ LF # ''[1:2.3]hi'' @ LF # ''[00:01.00]x'')
       = Inr [(1, ''x'')]"
    by code_simp
  from total empty ex1 ex2 skip str ex3 show ?thesis by blast
qed

theorem parser_tolerance_witness:
  "lrc_match ''not a lyric line'' = None
   \<and> parse_lrc (''[00:01.00]x'' @ LF # ''not a lyric line'' @ LF # ''[00:02.00]y'')
       = parse_lrc (''[00:01.00]x'' @ LF # ''[00:02.00]y'')
   \<and> parse_lrc (''[00:01.00]x'' @ LF # ''[00:02.00]y'') = Inr [(1, ''x''), (2, ''y'')]"
proof -
  have m: "lrc_match ''not a lyric line'' = None"
    by simp
  have nb: "\<forall>c \<in> set ''not a lyric line''. \<not> is_linebreak c"
    by (simp add: is_linebreak_def)
  note inst = parser_tolerance [of "[]" "''not a lyric line''" "[]" "[]" "[]"
      "''[00:02.00]y''" "''[00:01.00]x''"]
  from m nb inst
  have same: "parse_lrc (''[00:01.00]x'' @ LF # ''not a lyric line'' @ LF # ''[00:02.00]y'')
       = parse_lrc (''[00:01.00]x'' @ LF # ''[00:02.00]y'')"
    by blast
  have val: "parse_lrc (''[00:01.00]x'' @ LF # ''[00:02.00]y'') = Inr [(1, ''x''), (2, ''y'')]"
    by code_simp
  from m same val show ?thesis by blast
qed

section \<open>The formatter on one segment\<close>




lemma minutes_nonneg: "0 \<le> x \<Longrightarrow> 0 \<le> \<lfloor>x / 60\<rfloor>"
  by simp





















section \<open>Formatting and parsing back\<close>











end
